theory Spec2Isabelle
  imports Main "HOL-Library.Sublist"
begin

section \<open>JavaScript values and strings\<close>

text \<open>
  A JavaScript string is a sequence of UTF-16 code units; a code unit is modelled as a
  natural number. The messages of \<^verbatim>\<open>src/manager/TodoManager.ts\<close> are written in
  Chinese, so they do not fit into the 8-bit \<^typ>\<open>char\<close>: ASCII text is written
  \<open>js ''...''\<close> and every other code unit as its number.
\<close>

type_synonym jsstring = "nat list"

definition js :: "string \<Rightarrow> jsstring" where
  "js s = map of_char s"

text \<open>
  The values a field of a candidate record can hold. The tool layer hands \<open>update\<close> the
  parsed JSON of a model's tool call, whatever its declared type \<^verbatim>\<open>TodoItem[]\<close>
  says: a field may be absent (\<open>JUndefined\<close>), \<^verbatim>\<open>null\<close>, a boolean, a number, a string
  or an object. \<open>JNum n\<close> is the integer number \<open>n\<close> (a safe integer, below \<open>2^53\<close> in
  absolute value); \<open>JObject\<close> is a plain object with no \<^verbatim>\<open>toString\<close> or
  \<^verbatim>\<open>valueOf\<close> key of its own. Fractions, \<^verbatim>\<open>NaN\<close> and arrays are left out.
\<close>

datatype jsval =
    JUndefined
  | JNull
  | JBool bool
  | JNum int
  | JStr jsstring
  | JObject

text \<open>Truthiness, as \<^verbatim>\<open>||\<close> and \<^verbatim>\<open>!\<close> read it.\<close>

fun truthy :: "jsval \<Rightarrow> bool" where
  "truthy JUndefined = False"
| "truthy JNull = False"
| "truthy (JBool b) = b"
| "truthy (JNum n) = (n \<noteq> 0)"
| "truthy (JStr s) = (s \<noteq> [])"
| "truthy JObject = True"

text \<open>\<^verbatim>\<open>a || b\<close>: the left operand when it is truthy, the right one otherwise.\<close>

definition or_else :: "jsval \<Rightarrow> jsval \<Rightarrow> jsval" where
  "or_else a b = (if truthy a then a else b)"

text \<open>Decimal digits of a number, as a template literal \<^verbatim>\<open>${i}\<close> prints an index or a count.\<close>

fun show_nat :: "nat \<Rightarrow> jsstring" where
  "show_nat n = (if n < 10 then [48 + n] else show_nat (n div 10) @ [48 + n mod 10])"

declare show_nat.simps [simp del]

definition show_int :: "int \<Rightarrow> jsstring" where
  "show_int n = (if n < 0 then 45 # show_nat (nat (- n)) else show_nat (nat n))"

text \<open>\<^verbatim>\<open>String(v)\<close>.\<close>

fun String_js :: "jsval \<Rightarrow> jsstring" where
  "String_js JUndefined = js ''undefined''"
| "String_js JNull = js ''null''"
| "String_js (JBool b) = (if b then js ''true'' else js ''false'')"
| "String_js (JNum n) = show_int n"
| "String_js (JStr s) = s"
| "String_js JObject = js ''[object Object]''"

text \<open>
  \<^verbatim>\<open>String.prototype.trim\<close> removes the white space and line terminators of ECMAScript
  at both ends: tab, line feed, vertical tab, form feed, carriage return, space,
  no-break space, U+1680, U+2000 to U+200A, U+2028, U+2029, U+202F, U+205F, U+3000 and
  the byte order mark U+FEFF.
\<close>

definition is_space :: "nat \<Rightarrow> bool" where
  "is_space c =
     (c \<in> set [9, 10, 11, 12, 13, 32, 160, 5760, 8232, 8233, 8239, 8287, 12288, 65279]
      \<or> (8192 \<le> c \<and> c \<le> 8202))"

definition trim :: "jsstring \<Rightarrow> jsstring" where
  "trim s = rev (dropWhile is_space (rev (dropWhile is_space s)))"

text \<open>
  \<^verbatim>\<open>String.prototype.toLocaleLowerCase\<close>, with no argument. The model maps the
  letters A to Z to a to z and keeps every other code unit. In the host locales whose
  lower-casing is the default one of Unicode (all but Turkish, Azeri and Lithuanian) this
  is what the engine does wherever the result is compared with an ASCII word: no code
  unit outside A to Z lower-cases to one of the letters of \<open>pending\<close>, \<open>in_progress\<close> or
  \<open>completed\<close>. Only the echo of a rejected status that holds letters outside ASCII
  can differ from the engine's.
\<close>

definition lower_unit :: "nat \<Rightarrow> nat" where
  "lower_unit c = (if 65 \<le> c \<and> c \<le> 90 then c + 32 else c)"

definition toLocaleLowerCase :: "jsstring \<Rightarrow> jsstring" where
  "toLocaleLowerCase s = map lower_unit s"

text \<open>\<^verbatim>\<open>Array.prototype.join\<close> on an array of strings.\<close>

fun join :: "jsstring \<Rightarrow> jsstring list \<Rightarrow> jsstring" where
  "join sep [] = []"
| "join sep [x] = x"
| "join sep (x # y # ys) = x @ sep @ join sep (y # ys)"

section \<open>The task list manager\<close>

text \<open>
  \<^verbatim>\<open>interface TodoItem\<close>, with the status as the string it is at run time, and the
  manager's only field.
\<close>

record TodoItem =
  content :: jsstring
  status :: jsstring
  activeForm :: jsstring

record TodoManager =
  items :: "TodoItem list"

text \<open>
  A candidate record as \<open>update\<close> receives it. An element of the input array that is
  \<^verbatim>\<open>null\<close> or \<^verbatim>\<open>undefined\<close> is \<open>None\<close>, and \<^verbatim>\<open>item?.content\<close> reads
  \<^verbatim>\<open>undefined\<close> from it.
\<close>

record candidate =
  content_in :: jsval
  status_in :: jsval
  activeForm_in :: jsval

definition opt_chain :: "(candidate \<Rightarrow> jsval) \<Rightarrow> candidate option \<Rightarrow> jsval" where
  "opt_chain field item = (case item of None \<Rightarrow> JUndefined | Some r \<Rightarrow> field r)"

text \<open>
  What \<open>update\<close> throws: an \<^verbatim>\<open>Error\<close> with its message, or the engine's
  \<^verbatim>\<open>TypeError\<close> ("toLocaleLowerCase is not a function", in the engine's own words).
\<close>

datatype js_error = Error jsstring | TypeError

definition pending :: jsstring where
  "pending = js ''pending''"

definition in_progress :: jsstring where
  "in_progress = js ''in_progress''"

definition completed :: jsstring where
  "completed = js ''completed''"

text \<open>The five messages of \<open>update\<close> (lines 46, 49, 52, 64 and 67).\<close>

definition item_prefix :: "nat \<Rightarrow> jsstring" where
  "item_prefix i = [31532, 32] @ show_nat i @ [32, 39033] @ js '': ''"

definition need_content_msg :: "nat \<Rightarrow> jsstring" where
  "need_content_msg i = item_prefix i @ [38656, 35201, 20869, 23481] @ js '' (content)''"

definition invalid_status_msg :: "nat \<Rightarrow> jsstring \<Rightarrow> jsstring" where
  "invalid_status_msg i st =
     item_prefix i @ [26080, 25928, 29366, 24577, 32, 39] @ st @ [39]"

definition need_activeForm_msg :: "nat \<Rightarrow> jsstring" where
  "need_activeForm_msg i = item_prefix i @ [38656, 35201] @ js '' activeForm''"

definition too_many_msg :: jsstring where
  "too_many_msg = [26368, 22810, 20801, 35768] @ js ''20'' @ [39033, 24453, 21150, 20107, 39033]"

definition multiple_in_progress_msg :: jsstring where
  "multiple_in_progress_msg =
     [21516, 19968, 26102, 38388, 21482, 33021, 26377, 19968, 39033, 20219, 21153, 36827,
      34892, 20013] @ js ''(in_progress)''"

text \<open>
  \<^verbatim>\<open>(item?.status || 'pending').toLocaleLowerCase()\<close>: the method exists on a string
  only. The left operand of \<^verbatim>\<open>||\<close> is never \<^verbatim>\<open>undefined\<close> or \<^verbatim>\<open>null\<close> here,
  so the call fails exactly on a truthy value that is not a string, with a
  \<^verbatim>\<open>TypeError\<close>.
\<close>

fun call_toLocaleLowerCase :: "jsval \<Rightarrow> js_error + jsstring" where
  "call_toLocaleLowerCase (JStr s) = Inr (toLocaleLowerCase s)"
| "call_toLocaleLowerCase v = Inl TypeError"

text \<open>
  The three extractions at the head of the loop body (lines 40, 41 and 42). Only the
  one of the status can throw.
\<close>

definition extract_content :: "candidate option \<Rightarrow> jsstring" where
  "extract_content item = trim (String_js (or_else (opt_chain content_in item) (JStr [])))"

definition extract_status :: "candidate option \<Rightarrow> js_error + jsstring" where
  "extract_status item =
     call_toLocaleLowerCase (or_else (opt_chain status_in item) (JStr pending))"

definition extract_activeForm :: "candidate option \<Rightarrow> jsstring" where
  "extract_activeForm item =
     trim (String_js (or_else (opt_chain activeForm_in item) (JStr [])))"

text \<open>
  The body of the loop of \<open>update\<close> for the record at index \<open>i\<close> (lines 37 to 53): the
  three fields are extracted first, in the order content, status, activeForm, then
  checked in the same order. It returns the record to push.
\<close>

definition validate_item :: "nat \<Rightarrow> candidate option \<Rightarrow> js_error + TodoItem" where
  "validate_item i item =
     (let content' = extract_content item
      in case extract_status item of
           Inl e \<Rightarrow> Inl e
         | Inr status' \<Rightarrow>
             let activeForm' = extract_activeForm item
             in if content' = [] then Inl (Error (need_content_msg i))
                else if status' \<notin> set [pending, in_progress, completed]
                  then Inl (Error (invalid_status_msg i status'))
                else if activeForm' = [] then Inl (Error (need_activeForm_msg i))
                else Inr \<lparr>content = content', status = status', activeForm = activeForm'\<rparr>)"

text \<open>
  The loop (lines 36 to 60), from index \<open>i\<close> over the records that are left, with the
  local variables \<open>validated\<close> and \<open>inProgressCount\<close>.
\<close>

fun update_loop ::
  "nat \<Rightarrow> candidate option list \<Rightarrow> TodoItem list \<Rightarrow> nat \<Rightarrow> js_error + (TodoItem list \<times> nat)"
where
  "update_loop i [] validated inProgressCount = Inr (validated, inProgressCount)"
| "update_loop i (item # rest) validated inProgressCount =
     (case validate_item i item of
        Inl e \<Rightarrow> Inl e
      | Inr t \<Rightarrow>
          update_loop (Suc i) rest (validated @ [t])
            (if status t = in_progress then Suc inProgressCount else inProgressCount))"

text \<open>\<open>render\<close> (lines 86 to 107).\<close>

definition no_todos :: jsstring where
  "no_todos = [27809, 26377, 24453, 21150, 20107, 39033, 12290]"

definition render_line :: "TodoItem \<Rightarrow> jsstring" where
  "render_line item =
     (if status item = completed then js ''[x] '' @ content item
      else if status item = in_progress
        then js ''[>] '' @ content item @ js '' <- '' @ activeForm item
      else js ''[ ] '' @ content item)"

definition summary_line :: "TodoItem list \<Rightarrow> jsstring" where
  "summary_line its =
     [10] @ js ''('' @ show_nat (length (filter (\<lambda>t. status t = completed) its)) @ js ''/''
       @ show_nat (length its) @ [32, 24050, 23436, 25104] @ js '')''"

definition render :: "TodoManager \<Rightarrow> jsstring" where
  "render m =
     (if length (items m) = 0 then no_todos
      else join [10] (map render_line (items m) @ [summary_line (items m)]))"

text \<open>The getter \<open>count\<close> (lines 112 to 114).\<close>

definition count :: "TodoManager \<Rightarrow> nat" where
  "count m = length (items m)"

text \<open>
  \<open>update\<close> (lines 32 to 71), called with an array. It returns the manager after the
  call together with what the call gave: the rendered view, or the exception it threw.
\<close>

definition update :: "TodoManager \<Rightarrow> candidate option list \<Rightarrow> TodoManager \<times> (js_error + jsstring)" where
  "update m its =
     (case update_loop 0 its [] 0 of
        Inl e \<Rightarrow> (m, Inl e)
      | Inr (validated, inProgressCount) \<Rightarrow>
          if length validated > 20 then (m, Inl (Error too_many_msg))
          else if inProgressCount > 1 then (m, Inl (Error multiple_in_progress_msg))
          else (let m' = m\<lparr>items := validated\<rparr> in (m', Inr (render m'))))"

text \<open>A manager is created with an empty list (line 27).\<close>

definition new_manager :: TodoManager where
  "new_manager = \<lparr>items = []\<rparr>"

section \<open>Vocabulary of the specification\<close>

text \<open>
  A caller that respects the declared type \<^verbatim>\<open>TodoItem[]\<close> submits records whose
  three fields are strings.
\<close>

definition of_TodoItem :: "TodoItem \<Rightarrow> candidate option" where
  "of_TodoItem t =
     Some \<lparr>content_in = JStr (content t), status_in = JStr (status t),
       activeForm_in = JStr (activeForm t)\<rparr>"

text \<open>
  Two strings are equal up to letter case when they have the same length and, place by
  place, the same code unit or the two cases of one letter of A to Z.
\<close>

definition same_letter :: "nat \<Rightarrow> nat \<Rightarrow> bool" where
  "same_letter a b =
     (a = b \<or> (65 \<le> a \<and> a \<le> 90 \<and> b = a + 32) \<or> (65 \<le> b \<and> b \<le> 90 \<and> a = b + 32))"

definition eq_ignore_case :: "jsstring \<Rightarrow> jsstring \<Rightarrow> bool" where
  "eq_ignore_case s t = list_all2 same_letter s t"

definition legal_status :: "jsstring \<Rightarrow> bool" where
  "legal_status s =
     (eq_ignore_case s pending \<or> eq_ignore_case s in_progress \<or> eq_ignore_case s completed)"

text \<open>
  A record is valid on its own when its content and its activeForm are not empty after
  trimming and its status is one of the three legal values up to letter case.
\<close>

definition valid_record :: "TodoItem \<Rightarrow> bool" where
  "valid_record t =
     (trim (content t) \<noteq> [] \<and> trim (activeForm t) \<noteq> [] \<and> legal_status (status t))"

text \<open>The number of records of a list that are in progress, up to letter case.\<close>

definition in_progress_count :: "TodoItem list \<Rightarrow> nat" where
  "in_progress_count ts = length (filter (\<lambda>t. eq_ignore_case (status t) in_progress) ts)"

text \<open>The record as the specification wants it stored: trimmed, the status in lower case.\<close>

definition normalize_record :: "TodoItem \<Rightarrow> TodoItem" where
  "normalize_record t =
     \<lparr>content = trim (content t), status = toLocaleLowerCase (status t),
       activeForm = trim (activeForm t)\<rparr>"

text \<open>
  Every record of \<open>xs\<close>, standing at the indices from \<open>i\<close> on, passes the loop body.
\<close>

fun all_pass :: "nat \<Rightarrow> candidate option list \<Rightarrow> bool" where
  "all_pass i [] = True"
| "all_pass i (x # xs) = (\<not> isl (validate_item i x) \<and> all_pass (Suc i) xs)"

text \<open>
  The per-record validation of a whole list, from index \<open>i\<close>: the first exception, or
  the records to store. The loop of \<open>update\<close> computes it (lemma \<open>update_loop_validate_all\<close>).
\<close>

fun validate_all :: "nat \<Rightarrow> candidate option list \<Rightarrow> js_error + TodoItem list" where
  "validate_all i [] = Inr []"
| "validate_all i (x # xs) =
     (case validate_item i x of
        Inl e \<Rightarrow> Inl e
      | Inr t \<Rightarrow> (case validate_all (Suc i) xs of Inl e \<Rightarrow> Inl e | Inr ts \<Rightarrow> Inr (t # ts)))"

text \<open>
  Reading an index back from a message: the decimal digits and the number they write.
\<close>

definition is_digit :: "nat \<Rightarrow> bool" where
  "is_digit c = (48 \<le> c \<and> c \<le> 57)"

definition read_nat :: "jsstring \<Rightarrow> nat" where
  "read_nat ds = foldl (\<lambda>a d. 10 * a + (d - 48)) 0 ds"

section \<open>Strings\<close>

lemma js_Nil: "js [] = []"
  by (simp add: js_def)

lemma pending_units: "pending = [112, 101, 110, 100, 105, 110, 103]"
  by (simp add: pending_def js_def)

lemma in_progress_units: "in_progress = [105, 110, 95, 112, 114, 111, 103, 114, 101, 115, 115]"
  by (simp add: in_progress_def js_def)

lemma completed_units: "completed = [99, 111, 109, 112, 108, 101, 116, 101, 100]"
  by (simp add: completed_def js_def)

lemma same_letter_lower: "same_letter a b \<Longrightarrow> \<not> (65 \<le> b \<and> b \<le> 90) \<Longrightarrow> lower_unit a = b"
  by (auto simp: same_letter_def lower_unit_def)

lemma same_letter_lower_unit: "same_letter a (lower_unit a)"
  by (simp add: same_letter_def lower_unit_def)

lemma same_letter_lower_eq: "same_letter a b \<Longrightarrow> lower_unit a = lower_unit b"
  by (auto simp: same_letter_def lower_unit_def)

lemma eq_ignore_case_lower:
  "eq_ignore_case s t \<Longrightarrow> \<forall>c\<in>set t. \<not> (65 \<le> c \<and> c \<le> 90) \<Longrightarrow> toLocaleLowerCase s = t"
  unfolding eq_ignore_case_def toLocaleLowerCase_def
  by (induction s t rule: list_all2_induct) (simp_all add: same_letter_lower)

lemma lower_eq_ignore_case: "eq_ignore_case s (toLocaleLowerCase s)"
  unfolding eq_ignore_case_def toLocaleLowerCase_def
  by (induction s) (simp_all add: same_letter_lower_unit)

lemma eq_ignore_case_same_lower:
  "eq_ignore_case s t \<Longrightarrow> toLocaleLowerCase s = toLocaleLowerCase t"
  unfolding eq_ignore_case_def toLocaleLowerCase_def
  by (induction s t rule: list_all2_induct) (simp_all add: same_letter_lower_eq)

lemma eq_ignore_case_pending: "eq_ignore_case s pending \<longleftrightarrow> toLocaleLowerCase s = pending"
  using eq_ignore_case_lower [of s pending] lower_eq_ignore_case [of s]
  by (auto simp: pending_units)

lemma eq_ignore_case_in_progress:
  "eq_ignore_case s in_progress \<longleftrightarrow> toLocaleLowerCase s = in_progress"
  using eq_ignore_case_lower [of s in_progress] lower_eq_ignore_case [of s]
  by (auto simp: in_progress_units)

lemma eq_ignore_case_completed:
  "eq_ignore_case s completed \<longleftrightarrow> toLocaleLowerCase s = completed"
  using eq_ignore_case_lower [of s completed] lower_eq_ignore_case [of s]
  by (auto simp: completed_units)

lemma legal_status_lower:
  "legal_status s \<longleftrightarrow> toLocaleLowerCase s \<in> set [pending, in_progress, completed]"
  by (auto simp: legal_status_def eq_ignore_case_pending eq_ignore_case_in_progress
      eq_ignore_case_completed)

section \<open>The loop and the per-record validation\<close>

lemma update_loop_validate_all:
  "update_loop i xs v c =
     (case validate_all i xs of
        Inl e \<Rightarrow> Inl e
      | Inr ts \<Rightarrow> Inr (v @ ts, c + length (filter (\<lambda>t. status t = in_progress) ts)))"
  by (induction xs arbitrary: i v c) (auto split: sum.splits)

lemma update_validate_all:
  "update m its =
     (case validate_all 0 its of
        Inl e \<Rightarrow> (m, Inl e)
      | Inr ts \<Rightarrow>
          if 20 < length ts then (m, Inl (Error too_many_msg))
          else if 1 < length (filter (\<lambda>t. status t = in_progress) ts)
            then (m, Inl (Error multiple_in_progress_msg))
          else (m\<lparr>items := ts\<rparr>, Inr (render (m\<lparr>items := ts\<rparr>))))"
  by (simp add: update_def update_loop_validate_all Let_def split: sum.splits)

lemma validate_all_length: "validate_all i xs = Inr ts \<Longrightarrow> length ts = length xs"
  by (induction xs arbitrary: i ts) (auto split: sum.splits)

lemma all_pass_validate_all: "all_pass i xs \<longleftrightarrow> \<not> isl (validate_all i xs)"
  by (induction xs arbitrary: i) (auto split: sum.splits)

lemma validate_all_append:
  "validate_all i (xs @ ys) =
     (case validate_all i xs of
        Inl e \<Rightarrow> Inl e
      | Inr ts \<Rightarrow>
          (case validate_all (i + length xs) ys of Inl e \<Rightarrow> Inl e | Inr us \<Rightarrow> Inr (ts @ us)))"
  by (induction xs arbitrary: i) (auto split: sum.splits)

lemma validate_all_first_failure:
  assumes "all_pass i pre" and "validate_item (i + length pre) x = Inl e"
  shows "validate_all i (pre @ x # post) = Inl e"
proof -
  from assms(1) obtain ts where "validate_all i pre = Inr ts"
    by (cases "validate_all i pre") (auto simp: all_pass_validate_all)
  with assms(2) show ?thesis
    by (simp add: validate_all_append)
qed

lemma update_first_failure:
  assumes "all_pass 0 pre" and "validate_item (length pre) x = Inl e"
  shows "update m (pre @ x # post) = (m, Inl e)"
  using validate_all_first_failure [of 0 pre x e post] assms
  by (simp add: update_validate_all)

section \<open>Records of the declared type\<close>

lemma extract_content_typed: "extract_content (of_TodoItem t) = trim (content t)"
  by (simp add: extract_content_def of_TodoItem_def opt_chain_def or_else_def)

lemma extract_activeForm_typed: "extract_activeForm (of_TodoItem t) = trim (activeForm t)"
  by (simp add: extract_activeForm_def of_TodoItem_def opt_chain_def or_else_def)

lemma extract_status_typed:
  "extract_status (of_TodoItem t) =
     Inr (toLocaleLowerCase (if status t = [] then pending else status t))"
  by (simp add: extract_status_def of_TodoItem_def opt_chain_def or_else_def)

lemma lower_pending: "toLocaleLowerCase pending = pending"
  by (simp add: pending_units toLocaleLowerCase_def lower_unit_def)

lemma legal_status_not_Nil: "legal_status s \<Longrightarrow> s \<noteq> []"
  by (auto simp: legal_status_lower toLocaleLowerCase_def pending_units in_progress_units
      completed_units)

lemma validate_item_valid: "valid_record t \<Longrightarrow> validate_item i (of_TodoItem t) = Inr (normalize_record t)"
  using legal_status_not_Nil [of "status t"] legal_status_lower [of "status t"]
  by (simp add: valid_record_def validate_item_def extract_content_typed
      extract_activeForm_typed extract_status_typed normalize_record_def)

lemma validate_all_valid:
  "list_all valid_record ts \<Longrightarrow> validate_all i (map of_TodoItem ts) = Inr (map normalize_record ts)"
  by (induction ts arbitrary: i) (simp_all add: validate_item_valid)

lemma in_progress_normalize_record:
  "length (filter (\<lambda>t. status t = in_progress) (map normalize_record ts)) = in_progress_count ts"
  by (induction ts) (simp_all add: in_progress_count_def normalize_record_def eq_ignore_case_in_progress)

lemma update_typed:
  assumes "list_all valid_record ts"
  shows "update m (map of_TodoItem ts) =
     (if 20 < length ts then (m, Inl (Error too_many_msg))
      else if 1 < in_progress_count ts then (m, Inl (Error multiple_in_progress_msg))
      else (m\<lparr>items := map normalize_record ts\<rparr>, Inr (render (m\<lparr>items := map normalize_record ts\<rparr>))))"
  using in_progress_normalize_record [of ts]
  by (simp add: update_validate_all validate_all_valid [OF assms])

text \<open>The definitions a concrete input is evaluated with.\<close>

lemmas string_eval = js_def is_space_def trim_def lower_unit_def toLocaleLowerCase_def
  pending_def in_progress_def completed_def same_letter_def eq_ignore_case_def

lemmas spec_eval = legal_status_def valid_record_def in_progress_count_def
  normalize_record_def of_TodoItem_def

lemmas update_eval = update_def validate_item_def extract_content_def extract_status_def
  extract_activeForm_def opt_chain_def or_else_def render_def render_line_def
  summary_line_def show_nat.simps need_content_msg_def invalid_status_msg_def
  need_activeForm_msg_def item_prefix_def too_many_msg_def multiple_in_progress_msg_def
  no_todos_def new_manager_def count_def Let_def

lemma validate_item_case_variant:
  assumes "content t' = content t" and "activeForm t' = activeForm t"
    and "eq_ignore_case (status t') (status t)"
  shows "validate_item i (of_TodoItem t') = validate_item i (of_TodoItem t)"
proof -
  from assms(3) have "length (status t') = length (status t)"
    by (simp add: eq_ignore_case_def list_all2_lengthD)
  then have "status t' = [] \<longleftrightarrow> status t = []"
    by auto
  with eq_ignore_case_same_lower [OF assms(3)]
  have "extract_status (of_TodoItem t') = extract_status (of_TodoItem t)"
    by (simp add: extract_status_typed)
  with assms(1,2) show ?thesis
    by (simp add: validate_item_def extract_content_typed extract_activeForm_typed Let_def
        split: sum.splits)
qed

lemma validate_all_case_variant:
  assumes "list_all2 (\<lambda>t' t. content t' = content t \<and> activeForm t' = activeForm t
             \<and> eq_ignore_case (status t') (status t)) ts' ts"
  shows "validate_all i (map of_TodoItem ts') = validate_all i (map of_TodoItem ts)"
  using assms
proof (induction ts' ts arbitrary: i rule: list_all2_induct)
  case Nil
  then show ?case by simp
next
  case (Cons t' ts' t ts)
  from Cons.hyps(1) have "validate_item i (of_TodoItem t') = validate_item i (of_TodoItem t)"
    by (simp add: validate_item_case_variant)
  with Cons.IH [of "Suc i"] show ?case
    by (simp split: sum.splits)
qed

section \<open>Accepted lists\<close>

text \<open>
  C1. Take a list of at most 20 records of the declared type in which every record has
  a content and an activeForm that are not empty after trimming and a status that is
  pending, in_progress or completed up to letter case, and at most one record is in
  progress (up to letter case). Then \<open>update\<close> throws nothing: the stored list becomes
  the submitted records in the submitted order, each one trimmed and with its status in
  lower case, and the call returns the rendering of exactly that list. The letter case
  of the statuses makes no difference: a list that differs from the submitted one only in
  the letter case of its statuses (\<open>IN_PROGRESS\<close> for \<open>in_progress\<close>) gives the same
  stored list and the same rendering.
\<close>

theorem update_accepts_valid_list:
  assumes "length ts \<le> 20" and "list_all valid_record ts" and "in_progress_count ts \<le> 1"
  shows "update m (map of_TodoItem ts) =
           (m\<lparr>items := map normalize_record ts\<rparr>,
            Inr (render (m\<lparr>items := map normalize_record ts\<rparr>)))
       \<and> render (fst (update m (map of_TodoItem ts))) =
           render \<lparr>items = map normalize_record ts\<rparr>
       \<and> (\<forall>ts'. list_all2 (\<lambda>t' t. content t' = content t \<and> activeForm t' = activeForm t
               \<and> eq_ignore_case (status t') (status t)) ts' ts
             \<longrightarrow> update m (map of_TodoItem ts') = update m (map of_TodoItem ts))"
proof -
  have accepted: "update m (map of_TodoItem ts) =
      (m\<lparr>items := map normalize_record ts\<rparr>,
       Inr (render (m\<lparr>items := map normalize_record ts\<rparr>)))"
    using assms by (simp add: update_typed)
  have view: "render (m\<lparr>items := map normalize_record ts\<rparr>) =
      render \<lparr>items = map normalize_record ts\<rparr>"
    by (simp add: render_def)
  have "update m (map of_TodoItem ts') = update m (map of_TodoItem ts)"
    if "list_all2 (\<lambda>t' t. content t' = content t \<and> activeForm t' = activeForm t
          \<and> eq_ignore_case (status t') (status t)) ts' ts" for ts'
    using validate_all_case_variant [OF that, of 0]
    by (simp add: update_validate_all)
  with accepted view show ?thesis
    by simp
qed

theorem update_accepts_valid_list_witness:
  "update new_manager
     (map of_TodoItem
       [\<lparr>content = js ''Write tests'', status = js ''IN_PROGRESS'',
          activeForm = js ''Writing tests''\<rparr>,
        \<lparr>content = js '' Ship '', status = js ''Pending'', activeForm = js ''Shipping''\<rparr>]) =
     (\<lparr>items =
        [\<lparr>content = js ''Write tests'', status = js ''in_progress'',
           activeForm = js ''Writing tests''\<rparr>,
         \<lparr>content = js ''Ship'', status = js ''pending'', activeForm = js ''Shipping''\<rparr>]\<rparr>,
      Inr (js ''[>] Write tests <- Writing tests'' @ [10] @ js ''[ ] Ship'' @ [10, 10]
        @ js ''(0/2 '' @ [24050, 23436, 25104] @ js '')''))"
proof -
  let ?ts = "[\<lparr>content = js ''Write tests'', status = js ''IN_PROGRESS'',
                activeForm = js ''Writing tests''\<rparr>,
              \<lparr>content = js '' Ship '', status = js ''Pending'', activeForm = js ''Shipping''\<rparr>]"
  have len: "length ?ts \<le> 20"
    by simp
  have valid: "list_all valid_record ?ts"
    by (simp add: string_eval spec_eval)
  have one: "in_progress_count ?ts \<le> 1"
    by (simp add: string_eval spec_eval)
  have "update new_manager (map of_TodoItem ?ts) =
      (new_manager\<lparr>items := map normalize_record ?ts\<rparr>,
       Inr (render (new_manager\<lparr>items := map normalize_record ?ts\<rparr>)))"
    using update_accepts_valid_list [OF len valid one, of new_manager] by blast
  also have "\<dots> =
      (\<lparr>items =
         [\<lparr>content = js ''Write tests'', status = js ''in_progress'',
            activeForm = js ''Writing tests''\<rparr>,
          \<lparr>content = js ''Ship'', status = js ''pending'', activeForm = js ''Shipping''\<rparr>]\<rparr>,
       Inr (js ''[>] Write tests <- Writing tests'' @ [10] @ js ''[ ] Ship'' @ [10, 10]
         @ js ''(0/2 '' @ [24050, 23436, 25104] @ js '')''))"
    by (simp add: string_eval spec_eval update_eval)
  finally show ?thesis .
qed

section \<open>Rejected lists leave the manager as it was\<close>

text \<open>
  C2. Whatever the stored list and whatever the input, an \<open>update\<close> that throws (for
  any reason: a per-record check, too many records, more than one record in progress,
  or the exception of the status extraction) leaves the manager as it was: \<open>render\<close> gives
  the string it gave before the call and \<open>count\<close> the same number. The stored list is
  replaced only when every check has passed, and then by the whole validated list:
  a manager that differs after the call comes from a loop that ran to its end, with at
  most 20 records and at most one in progress.
\<close>

theorem failed_update_keeps_state:
  "(isl (snd (update m its)) \<longrightarrow>
      fst (update m its) = m \<and> render (fst (update m its)) = render m
      \<and> count (fst (update m its)) = count m)
   \<and> (fst (update m its) \<noteq> m \<longrightarrow>
      (\<exists>validated n. update_loop 0 its [] 0 = Inr (validated, n) \<and> length validated \<le> 20
         \<and> n \<le> 1 \<and> update m its =
           (m\<lparr>items := validated\<rparr>, Inr (render (m\<lparr>items := validated\<rparr>)))))"
  by (auto simp: update_def Let_def split: sum.splits prod.splits if_splits)

theorem failed_update_keeps_state_witness:
  "isl (snd (update \<lparr>items = [\<lparr>content = js ''Ship'', status = js ''pending'',
       activeForm = js ''Shipping''\<rparr>]\<rparr>
     [Some \<lparr>content_in = JStr (js ''Write tests''), status_in = JStr (js ''blocked''),
        activeForm_in = JStr (js ''Writing tests'')\<rparr>]))
   \<and> render (fst (update \<lparr>items = [\<lparr>content = js ''Ship'', status = js ''pending'',
       activeForm = js ''Shipping''\<rparr>]\<rparr>
     [Some \<lparr>content_in = JStr (js ''Write tests''), status_in = JStr (js ''blocked''),
        activeForm_in = JStr (js ''Writing tests'')\<rparr>])) =
     js ''[ ] Ship'' @ [10, 10] @ js ''(0/1 '' @ [24050, 23436, 25104] @ js '')''
   \<and> count (fst (update \<lparr>items = [\<lparr>content = js ''Ship'', status = js ''pending'',
       activeForm = js ''Shipping''\<rparr>]\<rparr>
     [Some \<lparr>content_in = JStr (js ''Write tests''), status_in = JStr (js ''blocked''),
        activeForm_in = JStr (js ''Writing tests'')\<rparr>])) = 1"
proof -
  let ?m = "\<lparr>items = [\<lparr>content = js ''Ship'', status = js ''pending'',
    activeForm = js ''Shipping''\<rparr>]\<rparr>"
  let ?its = "[Some \<lparr>content_in = JStr (js ''Write tests''), status_in = JStr (js ''blocked''),
    activeForm_in = JStr (js ''Writing tests'')\<rparr>]"
  have failed: "isl (snd (update ?m ?its))"
    by (simp add: string_eval update_eval)
  with failed_update_keeps_state [of ?m ?its]
  have kept: "render (fst (update ?m ?its)) = render ?m \<and> count (fst (update ?m ?its)) = count ?m"
    by blast
  have "render ?m = js ''[ ] Ship'' @ [10, 10] @ js ''(0/1 '' @ [24050, 23436, 25104] @ js '')''"
    by (simp add: string_eval update_eval)
  moreover have "count ?m = 1"
    by (simp add: count_def)
  ultimately show ?thesis
    using failed kept by simp
qed

section \<open>The rendered view\<close>

lemma join_Cons: "ys \<noteq> [] \<Longrightarrow> join sep (x # ys) = x @ sep @ join sep ys"
  by (cases ys) simp_all

lemma join_snoc: "join sep (xs @ [y]) = concat (map (\<lambda>x. x @ sep) xs) @ y"
  by (induction xs) (simp_all add: join_Cons)

lemma pending_not_completed: "pending \<noteq> completed"
  by (simp add: pending_units completed_units)

lemma pending_not_in_progress: "pending \<noteq> in_progress"
  by (simp add: pending_units in_progress_units)

lemma in_progress_not_completed: "in_progress \<noteq> completed"
  by (simp add: in_progress_units completed_units)

text \<open>
  C3, as the specification states it, fails on the summary line: the code writes the
  three code units U+5DF2 U+5B8C U+6210 where the specification writes \<open>done\<close>. The
  list of scenario B is accepted and its view is the two lines, an empty line and
  \<open>(0/2 \<close>U+5DF2 U+5B8C U+6210\<open>)\<close>; the text \<open>(0/2 done)\<close> stands nowhere in it.
\<close>

theorem render_summary_counterexample:
  "snd (update new_manager
      (map of_TodoItem
        [\<lparr>content = js ''Write tests'', status = js ''in_progress'',
           activeForm = js ''Writing tests''\<rparr>,
         \<lparr>content = js ''Ship'', status = js ''pending'', activeForm = js ''Shipping''\<rparr>])) =
     Inr (js ''[>] Write tests <- Writing tests'' @ [10] @ js ''[ ] Ship'' @ [10, 10]
       @ js ''(0/2 '' @ [24050, 23436, 25104] @ js '')'')
   \<and> \<not> sublist (js ''(0/2 done)'')
       (render (fst (update new_manager
         (map of_TodoItem
           [\<lparr>content = js ''Write tests'', status = js ''in_progress'',
              activeForm = js ''Writing tests''\<rparr>,
            \<lparr>content = js ''Ship'', status = js ''pending'',
              activeForm = js ''Shipping''\<rparr>]))))"
proof -
  let ?its = "map of_TodoItem
    [\<lparr>content = js ''Write tests'', status = js ''in_progress'',
       activeForm = js ''Writing tests''\<rparr>,
     \<lparr>content = js ''Ship'', status = js ''pending'', activeForm = js ''Shipping''\<rparr>]"
  let ?stored = "\<lparr>items =
    [\<lparr>content = js ''Write tests'', status = js ''in_progress'',
       activeForm = js ''Writing tests''\<rparr>,
     \<lparr>content = js ''Ship'', status = js ''pending'', activeForm = js ''Shipping''\<rparr>]\<rparr>"
  let ?view = "js ''[>] Write tests <- Writing tests'' @ [10] @ js ''[ ] Ship'' @ [10, 10]
    @ js ''(0/2 '' @ [24050, 23436, 25104] @ js '')''"
  have call: "update new_manager ?its = (?stored, Inr ?view)"
    by (simp add: string_eval spec_eval update_eval)
  have view: "render ?stored = ?view"
    by (simp add: string_eval update_eval)
  have absent: "\<not> sublist (js ''(0/2 done)'') ?view"
    by (simp add: js_def sublist_Cons_right)
  from call view absent show ?thesis
    by simp
qed

text \<open>
  C3, amended. \<open>render\<close> is a function of the stored list. For the empty list it is
  the fixed sentinel \<open>no_todos\<close>. Otherwise it is one line per record in stored order,
  each ended by a line feed (\<open>[x] content\<close> for a completed record,
  \<open>[>] content <- activeForm\<close> for the one in progress, \<open>[ ] content\<close> for a pending
  one), then an empty line and the summary \<open>(completed/total \<close>U+5DF2 U+5B8C U+6210\<open>)\<close>,
  where \<open>completed\<close> counts the records whose status is completed and \<open>total\<close> is the
  length of the list.
\<close>

theorem render_format:
  "render m =
     (if items m = [] then no_todos
      else concat (map (\<lambda>t. render_line t @ [10]) (items m)) @ [10] @ js ''(''
        @ show_nat (length (filter (\<lambda>t. status t = completed) (items m))) @ js ''/''
        @ show_nat (length (items m)) @ [32, 24050, 23436, 25104] @ js '')'')
   \<and> (status t = completed \<longrightarrow> render_line t = js ''[x] '' @ content t)
   \<and> (status t = in_progress \<longrightarrow>
        render_line t = js ''[>] '' @ content t @ js '' <- '' @ activeForm t)
   \<and> (status t = pending \<longrightarrow> render_line t = js ''[ ] '' @ content t)"
proof -
  have view: "render m =
     (if items m = [] then no_todos
      else concat (map (\<lambda>t. render_line t @ [10]) (items m)) @ [10] @ js ''(''
        @ show_nat (length (filter (\<lambda>t. status t = completed) (items m))) @ js ''/''
        @ show_nat (length (items m)) @ [32, 24050, 23436, 25104] @ js '')'')"
    by (simp add: render_def join_snoc summary_line_def comp_def)
  have lines: "(status t = completed \<longrightarrow> render_line t = js ''[x] '' @ content t)
   \<and> (status t = in_progress \<longrightarrow>
        render_line t = js ''[>] '' @ content t @ js '' <- '' @ activeForm t)
   \<and> (status t = pending \<longrightarrow> render_line t = js ''[ ] '' @ content t)"
    by (simp add: render_line_def pending_not_completed pending_not_in_progress
        in_progress_not_completed)
  from view lines show ?thesis
    by (rule conjI)
qed

theorem render_format_witness:
  "render \<lparr>items =
     [\<lparr>content = js ''Plan'', status = completed, activeForm = js ''Planning''\<rparr>,
      \<lparr>content = js ''Write tests'', status = in_progress, activeForm = js ''Writing tests''\<rparr>,
      \<lparr>content = js ''Ship'', status = pending, activeForm = js ''Shipping''\<rparr>]\<rparr> =
     js ''[x] Plan'' @ [10] @ js ''[>] Write tests <- Writing tests'' @ [10] @ js ''[ ] Ship''
       @ [10, 10] @ js ''(1/3 '' @ [24050, 23436, 25104] @ js '')''
   \<and> render_line \<lparr>content = js ''Plan'', status = completed, activeForm = js ''Planning''\<rparr> =
     js ''[x] Plan''
   \<and> render_line \<lparr>content = js ''Write tests'', status = in_progress,
       activeForm = js ''Writing tests''\<rparr> = js ''[>] Write tests <- Writing tests''
   \<and> render_line \<lparr>content = js ''Ship'', status = pending, activeForm = js ''Shipping''\<rparr> =
     js ''[ ] Ship''"
proof -
  let ?a = "\<lparr>content = js ''Plan'', status = completed, activeForm = js ''Planning''\<rparr>"
  let ?b = "\<lparr>content = js ''Write tests'', status = in_progress,
    activeForm = js ''Writing tests''\<rparr>"
  let ?c = "\<lparr>content = js ''Ship'', status = pending, activeForm = js ''Shipping''\<rparr>"
  have a: "render_line ?a = js ''[x] Plan''"
    using render_format [of "\<lparr>items = [?a, ?b, ?c]\<rparr>" ?a] by (simp add: js_def)
  have b: "render_line ?b = js ''[>] Write tests <- Writing tests''"
    using render_format [of "\<lparr>items = [?a, ?b, ?c]\<rparr>" ?b] by (simp add: js_def)
  have c: "render_line ?c = js ''[ ] Ship''"
    using render_format [of "\<lparr>items = [?a, ?b, ?c]\<rparr>" ?c] by (simp add: js_def)
  have "render \<lparr>items = [?a, ?b, ?c]\<rparr> =
      render_line ?a @ [10] @ render_line ?b @ [10] @ render_line ?c @ [10, 10] @ js ''(''
        @ show_nat (Suc 0) @ js ''/'' @ show_nat (Suc (Suc (Suc 0)))
        @ [32, 24050, 23436, 25104] @ js '')''"
    using render_format [of "\<lparr>items = [?a, ?b, ?c]\<rparr>" ?a]
    by (simp add: pending_not_completed in_progress_not_completed)
  with a b c show ?thesis
    by (simp add: js_def show_nat.simps)
qed

section \<open>The two limits and the order of the checks\<close>

lemma all_pass_valid: "list_all valid_record ts \<Longrightarrow> all_pass i (map of_TodoItem ts)"
  by (simp add: all_pass_validate_all validate_all_valid)

lemma per_record_error_shape:
  "validate_item i x = Inl e \<Longrightarrow> e = TypeError \<or> (\<exists>msg. e = Error (31532 # msg))"
  by (auto simp: validate_item_def Let_def need_content_msg_def invalid_status_msg_def
      need_activeForm_msg_def item_prefix_def extract_status_def
      split: sum.splits if_splits elim: call_toLocaleLowerCase.elims)

lemma validate_all_error_shape:
  "validate_all i xs = Inl e \<Longrightarrow> e = TypeError \<or> (\<exists>msg. e = Error (31532 # msg))"
proof (induction xs arbitrary: i)
  case Nil
  then show ?case by simp
next
  case (Cons x xs)
  then show ?case
    by (auto split: sum.splits dest: per_record_error_shape)
qed

lemma too_many_msg_head: "too_many_msg \<noteq> 31532 # msg"
  by (simp add: too_many_msg_def)

lemma multiple_in_progress_msg_head: "multiple_in_progress_msg \<noteq> 31532 # msg"
  by (simp add: multiple_in_progress_msg_def)

lemma too_many_not_multiple: "too_many_msg \<noteq> multiple_in_progress_msg"
  by (simp add: too_many_msg_def multiple_in_progress_msg_def)

lemma update_too_many_only_after_loop:
  assumes "update m its = (m', Inl (Error too_many_msg))"
  shows "all_pass 0 its \<and> 20 < length its"
proof (cases "validate_all 0 its")
  case (Inl e)
  with assms have "e = Error too_many_msg"
    by (simp add: update_validate_all)
  with validate_all_error_shape [OF Inl] too_many_msg_head show ?thesis
    by auto
next
  case (Inr ts)
  with assms too_many_not_multiple
  have "20 < length ts"
    by (auto simp: update_validate_all split: if_splits)
  with Inr validate_all_length [OF Inr] show ?thesis
    by (simp add: all_pass_validate_all)
qed

lemma update_multiple_only_after_loop:
  assumes "update m its = (m', Inl (Error multiple_in_progress_msg))"
  shows "all_pass 0 its \<and> length its \<le> 20"
proof (cases "validate_all 0 its")
  case (Inl e)
  with assms have "e = Error multiple_in_progress_msg"
    by (simp add: update_validate_all)
  with validate_all_error_shape [OF Inl] multiple_in_progress_msg_head show ?thesis
    by auto
next
  case (Inr ts)
  with assms too_many_not_multiple
  have "\<not> 20 < length ts"
    by (auto simp: update_validate_all split: if_splits)
  with Inr validate_all_length [OF Inr] show ?thesis
    by (simp add: all_pass_validate_all)
qed


lemma valid_pending: "valid_record \<lparr>content = js ''Ship'', status = js ''pending'', activeForm = js ''Shipping''\<rparr>"
  by (simp add: string_eval spec_eval)

lemma valid_in_progress: "valid_record \<lparr>content = js ''Write tests'', status = js ''in_progress'', activeForm = js ''Writing tests''\<rparr>"
  by (simp add: string_eval spec_eval)


lemma count_in_progress: "eq_ignore_case (js ''in_progress'') in_progress"
  by (simp add: string_eval)

lemma count_pending: "\<not> eq_ignore_case (js ''pending'') in_progress"
  by (simp add: string_eval)

text \<open>
  C4. A list of exactly 20 valid records (with at most one in progress) is accepted: it
  becomes the stored list and its rendering is returned. A list of 21 records that are
  each valid is rejected with the too-many-tasks error, and the manager is as it was.
\<close>

theorem update_boundary_twenty:
  "(length ts = 20 \<and> list_all valid_record ts \<and> in_progress_count ts \<le> 1 \<longrightarrow>
      update m (map of_TodoItem ts) =
        (m\<lparr>items := map normalize_record ts\<rparr>,
         Inr (render (m\<lparr>items := map normalize_record ts\<rparr>))))
   \<and> (length ts' = 21 \<and> list_all valid_record ts' \<longrightarrow>
      update m (map of_TodoItem ts') = (m, Inl (Error too_many_msg)))"
  by (simp add: update_typed)

theorem update_boundary_twenty_witness:
  "update new_manager (map of_TodoItem (\<lparr>content = js ''Write tests'', status = js ''in_progress'',
    activeForm = js ''Writing tests''\<rparr> # replicate 19 \<lparr>content = js ''Ship'', status = js ''pending'', activeForm = js ''Shipping''\<rparr>)) =
     (new_manager\<lparr>items := map normalize_record (\<lparr>content = js ''Write tests'', status = js ''in_progress'',
    activeForm = js ''Writing tests''\<rparr> # replicate 19 \<lparr>content = js ''Ship'', status = js ''pending'', activeForm = js ''Shipping''\<rparr>)\<rparr>,
      Inr (render (new_manager\<lparr>items := map normalize_record (\<lparr>content = js ''Write tests'', status = js ''in_progress'',
    activeForm = js ''Writing tests''\<rparr> # replicate 19 \<lparr>content = js ''Ship'', status = js ''pending'', activeForm = js ''Shipping''\<rparr>)\<rparr>)))
   \<and> count (fst (update new_manager (map of_TodoItem (\<lparr>content = js ''Write tests'', status = js ''in_progress'',
    activeForm = js ''Writing tests''\<rparr> # replicate 19 \<lparr>content = js ''Ship'', status = js ''pending'', activeForm = js ''Shipping''\<rparr>)))) = 20
   \<and> update new_manager (map of_TodoItem (\<lparr>content = js ''Write tests'', status = js ''in_progress'',
    activeForm = js ''Writing tests''\<rparr> # replicate 20 \<lparr>content = js ''Ship'', status = js ''pending'', activeForm = js ''Shipping''\<rparr>)) =
     (new_manager, Inl (Error too_many_msg))"
proof -
  let ?ip = "\<lparr>content = js ''Write tests'', status = js ''in_progress'',
    activeForm = js ''Writing tests''\<rparr>"
  let ?pe = "\<lparr>content = js ''Ship'', status = js ''pending'', activeForm = js ''Shipping''\<rparr>"
  have len: "length (?ip # replicate 19 ?pe) = 20"
    by simp
  have valid: "list_all valid_record (?ip # replicate 19 ?pe)"
    by (simp add: list_all_iff valid_in_progress valid_pending)
  have one: "in_progress_count (?ip # replicate 19 ?pe) \<le> 1"
    by (simp add: in_progress_count_def count_in_progress count_pending)
  have accepted: "update new_manager (map of_TodoItem (?ip # replicate 19 ?pe)) =
      (new_manager\<lparr>items := map normalize_record (?ip # replicate 19 ?pe)\<rparr>,
       Inr (render (new_manager\<lparr>items := map normalize_record (?ip # replicate 19 ?pe)\<rparr>)))"
    using update_boundary_twenty [of "?ip # replicate 19 ?pe" new_manager] len valid one
    by blast
  have len': "length (?ip # replicate 20 ?pe) = 21"
    by simp
  have valid': "list_all valid_record (?ip # replicate 20 ?pe)"
    by (simp add: list_all_iff valid_in_progress valid_pending)
  have rejected: "update new_manager (map of_TodoItem (?ip # replicate 20 ?pe)) =
      (new_manager, Inl (Error too_many_msg))"
    using update_boundary_twenty [of _ new_manager "?ip # replicate 20 ?pe"] len' valid'
    by blast
  from accepted have "count (fst (update new_manager (map of_TodoItem (?ip # replicate 19 ?pe)))) = 20"
    by (simp add: count_def)
  with accepted rejected show ?thesis
    by simp
qed

text \<open>
  C5. Among the lists of at most 20 records that are each valid, a list with exactly
  one record in progress is accepted, and a list with two records in progress is
  rejected with the multiple-in-progress error, the manager being as it was.
\<close>

theorem update_boundary_in_progress:
  "(list_all valid_record ts \<and> length ts \<le> 20 \<and> in_progress_count ts = 1 \<longrightarrow>
      update m (map of_TodoItem ts) =
        (m\<lparr>items := map normalize_record ts\<rparr>,
         Inr (render (m\<lparr>items := map normalize_record ts\<rparr>))))
   \<and> (list_all valid_record ts' \<and> length ts' \<le> 20 \<and> in_progress_count ts' = 2 \<longrightarrow>
      update m (map of_TodoItem ts') = (m, Inl (Error multiple_in_progress_msg)))"
  by (simp add: update_typed)

theorem update_boundary_in_progress_witness:
  "update new_manager (map of_TodoItem [\<lparr>content = js ''Write tests'', status = js ''in_progress'',
    activeForm = js ''Writing tests''\<rparr>, \<lparr>content = js ''Ship'', status = js ''pending'', activeForm = js ''Shipping''\<rparr>]) =
     (\<lparr>items = [\<lparr>content = js ''Write tests'', status = js ''in_progress'',
    activeForm = js ''Writing tests''\<rparr>, \<lparr>content = js ''Ship'', status = js ''pending'', activeForm = js ''Shipping''\<rparr>]\<rparr>,
      Inr (js ''[>] Write tests <- Writing tests'' @ [10] @ js ''[ ] Ship'' @ [10, 10]
        @ js ''(0/2 '' @ [24050, 23436, 25104] @ js '')''))
   \<and> update \<lparr>items = [\<lparr>content = js ''Ship'', status = js ''pending'', activeForm = js ''Shipping''\<rparr>]\<rparr> (map of_TodoItem [\<lparr>content = js ''Write tests'', status = js ''in_progress'',
    activeForm = js ''Writing tests''\<rparr>, \<lparr>content = js ''Ship'', status = js ''pending'', activeForm = js ''Shipping''\<rparr>, \<lparr>content = js ''Write tests'', status = js ''in_progress'',
    activeForm = js ''Writing tests''\<rparr>]) =
     (\<lparr>items = [\<lparr>content = js ''Ship'', status = js ''pending'', activeForm = js ''Shipping''\<rparr>]\<rparr>, Inl (Error multiple_in_progress_msg))"
proof -
  let ?ip = "\<lparr>content = js ''Write tests'', status = js ''in_progress'',
    activeForm = js ''Writing tests''\<rparr>"
  let ?pe = "\<lparr>content = js ''Ship'', status = js ''pending'', activeForm = js ''Shipping''\<rparr>"
  have valid: "list_all valid_record [?ip, ?pe]"
    by (simp add: valid_in_progress valid_pending)
  have one: "in_progress_count [?ip, ?pe] = 1"
    by (simp add: in_progress_count_def count_in_progress count_pending)
  have "update new_manager (map of_TodoItem [?ip, ?pe]) =
      (new_manager\<lparr>items := map normalize_record [?ip, ?pe]\<rparr>,
       Inr (render (new_manager\<lparr>items := map normalize_record [?ip, ?pe]\<rparr>)))"
    using update_boundary_in_progress [of "[?ip, ?pe]" new_manager] valid one
    by simp
  also have "\<dots> = (\<lparr>items = [?ip, ?pe]\<rparr>,
      Inr (js ''[>] Write tests <- Writing tests'' @ [10] @ js ''[ ] Ship'' @ [10, 10]
        @ js ''(0/2 '' @ [24050, 23436, 25104] @ js '')''))"
    by (simp add: string_eval spec_eval update_eval)
  finally have accepted: "update new_manager (map of_TodoItem [?ip, ?pe]) =
      (\<lparr>items = [?ip, ?pe]\<rparr>,
       Inr (js ''[>] Write tests <- Writing tests'' @ [10] @ js ''[ ] Ship'' @ [10, 10]
         @ js ''(0/2 '' @ [24050, 23436, 25104] @ js '')''))" .
  have valid': "list_all valid_record [?ip, ?pe, ?ip]"
    by (simp add: valid_in_progress valid_pending)
  have two: "in_progress_count [?ip, ?pe, ?ip] = 2"
    by (simp add: in_progress_count_def count_in_progress count_pending)
  have rejected: "update \<lparr>items = [?pe]\<rparr> (map of_TodoItem [?ip, ?pe, ?ip]) =
      (\<lparr>items = [?pe]\<rparr>, Inl (Error multiple_in_progress_msg))"
    using update_boundary_in_progress [of _ "\<lparr>items = [?pe]\<rparr>" "[?ip, ?pe, ?ip]"] valid' two
    by simp
  from accepted rejected show ?thesis
    by simp
qed

lemma first_failure_split:
  "\<not> all_pass i xs \<Longrightarrow>
   \<exists>pre item post e. xs = pre @ item # post \<and> all_pass i pre
     \<and> validate_item (i + length pre) item = Inl e"
proof (induction xs arbitrary: i)
  case Nil
  then show ?case by simp
next
  case (Cons x xs)
  show ?case
  proof (cases "validate_item i x")
    case (Inl e)
    then have "x # xs = [] @ x # xs \<and> all_pass i [] \<and> validate_item (i + length ([] :: candidate option list)) x = Inl e"
      by simp
    then show ?thesis
      by blast
  next
    case (Inr t)
    with Cons.prems have "\<not> all_pass (Suc i) xs"
      by simp
    from Cons.IH [OF this] obtain pre item post e
      where split: "xs = pre @ item # post" and pass: "all_pass (Suc i) pre"
        and bad: "validate_item (Suc i + length pre) item = Inl e"
      by blast
    from split have "x # xs = (x # pre) @ item # post"
      by simp
    moreover from Inr pass have "all_pass i (x # pre)"
      by simp
    moreover from bad have "validate_item (i + length (x # pre)) item = Inl e"
      by simp
    ultimately show ?thesis
      by blast
  qed
qed

lemma all_pass_nth:
  "all_pass i xs \<longleftrightarrow> (\<forall>k<length xs. \<not> isl (validate_item (i + k) (xs ! k)))"
proof (induction xs arbitrary: i)
  case Nil
  then show ?case by simp
next
  case (Cons x xs)
  have "(\<forall>k<Suc (length xs). \<not> isl (validate_item (i + k) ((x # xs) ! k))) \<longleftrightarrow>
      \<not> isl (validate_item i x) \<and> (\<forall>k<length xs. \<not> isl (validate_item (Suc i + k) (xs ! k)))"
    by (auto simp: less_Suc_eq_0_disj)
  with Cons.IH [of "Suc i"] show ?case
    by simp
qed

lemma per_record_error_not_list_wide:
  assumes "validate_item i x = Inl e"
  shows "e \<noteq> Error too_many_msg \<and> e \<noteq> Error multiple_in_progress_msg"
proof -
  from per_record_error_shape [OF assms]
  consider "e = TypeError" | msg where "e = Error (31532 # msg)"
    by blast
  then show ?thesis
  proof cases
    case 1
    then show ?thesis by simp
  next
    case 2
    have "e \<noteq> Error too_many_msg"
    proof
      assume "e = Error too_many_msg"
      with 2 have "too_many_msg = 31532 # msg"
        by simp
      with too_many_msg_head show False
        by simp
    qed
    moreover have "e \<noteq> Error multiple_in_progress_msg"
    proof
      assume "e = Error multiple_in_progress_msg"
      with 2 have "multiple_in_progress_msg = 31532 # msg"
        by simp
      with multiple_in_progress_msg_head show False
        by simp
    qed
    ultimately show ?thesis
      by simp
  qed
qed

lemma update_some_violation:
  assumes "k < length its" and "isl (validate_item k (its ! k))"
  shows "\<exists>pre item post e. its = pre @ item # post \<and> all_pass 0 pre
     \<and> validate_item (length pre) item = Inl e \<and> update m its = (m, Inl e)
     \<and> e \<noteq> Error too_many_msg \<and> e \<noteq> Error multiple_in_progress_msg"
proof -
  from assms have "\<not> all_pass 0 its"
    by (auto simp: all_pass_nth)
  from first_failure_split [OF this] obtain pre item post e
    where split: "its = pre @ item # post" and pass: "all_pass 0 pre"
      and bad: "validate_item (length pre) item = Inl e"
    by auto
  from update_first_failure [OF pass bad, of m post] split
  have "update m its = (m, Inl e)"
    by simp
  with split pass bad per_record_error_not_list_wide [OF bad] show ?thesis
    by blast
qed

text \<open>
  C9. The order of the errors. The two list-wide checks come after the loop, the
  too-many-tasks check first. A list that holds a record failing the loop body makes
  \<open>update\<close> throw a per-record error, that of the first such record, and neither of
  the two list-wide errors, however many records the list has and however many are in
  progress: a record that fails, standing after records that all pass, decides the
  outcome. A list of more than 20 records that are each valid is rejected with the
  too-many-tasks error, however many of them are in progress. And when \<open>update\<close> throws
  the too-many-tasks or the multiple-in-progress error, every record has passed the loop
  body, and the multiple-in-progress error is thrown only for a list of at most 20
  records.
\<close>

theorem update_error_precedence:
  "(k < length its \<and> isl (validate_item k (its ! k)) \<longrightarrow>
      (\<exists>pre item post e. its = pre @ item # post \<and> all_pass 0 pre
         \<and> validate_item (length pre) item = Inl e \<and> update m its = (m, Inl e)
         \<and> e \<noteq> Error too_many_msg \<and> e \<noteq> Error multiple_in_progress_msg))
   \<and> (all_pass 0 pre \<and> validate_item (length pre) item = Inl e \<longrightarrow>
      update m (pre @ item # post) = (m, Inl e))
   \<and> (list_all valid_record ts \<and> 20 < length ts \<longrightarrow>
      update m (map of_TodoItem ts) = (m, Inl (Error too_many_msg)))
   \<and> (update m its = (m', Inl (Error too_many_msg)) \<longrightarrow> all_pass 0 its \<and> 20 < length its)
   \<and> (update m its = (m', Inl (Error multiple_in_progress_msg)) \<longrightarrow>
      all_pass 0 its \<and> length its \<le> 20)"
  using update_some_violation [of k its m] update_first_failure [of pre item e m post]
    update_typed [of ts m] update_too_many_only_after_loop [of m its m']
    update_multiple_only_after_loop [of m its m']
  by simp

theorem update_error_precedence_witness:
  "(\<exists>pre item post e.
      map of_TodoItem (replicate 20 \<lparr>content = js ''Write tests'', status = js ''in_progress'',
          activeForm = js ''Writing tests''\<rparr>)
        @ of_TodoItem \<lparr>content = js ''   '', status = js ''in_progress'',
            activeForm = js ''Writing tests''\<rparr>
        # [of_TodoItem \<lparr>content = js ''Write tests'', status = js ''in_progress'',
            activeForm = js ''Writing tests''\<rparr>] = pre @ item # post
      \<and> all_pass 0 pre \<and> validate_item (length pre) item = Inl e
      \<and> update new_manager
          (map of_TodoItem (replicate 20 \<lparr>content = js ''Write tests'',
              status = js ''in_progress'', activeForm = js ''Writing tests''\<rparr>)
            @ of_TodoItem \<lparr>content = js ''   '', status = js ''in_progress'',
                activeForm = js ''Writing tests''\<rparr>
            # [of_TodoItem \<lparr>content = js ''Write tests'', status = js ''in_progress'',
                activeForm = js ''Writing tests''\<rparr>]) = (new_manager, Inl e)
      \<and> e \<noteq> Error too_many_msg \<and> e \<noteq> Error multiple_in_progress_msg)
   \<and> update new_manager
     (map of_TodoItem (replicate 20 \<lparr>content = js ''Write tests'', status = js ''in_progress'',
    activeForm = js ''Writing tests''\<rparr>) @ of_TodoItem \<lparr>content = js ''   '', status = js ''in_progress'',
    activeForm = js ''Writing tests''\<rparr> # [of_TodoItem \<lparr>content = js ''Write tests'', status = js ''in_progress'',
    activeForm = js ''Writing tests''\<rparr>]) =
     (new_manager, Inl (Error (need_content_msg 20)))
   \<and> update new_manager (map of_TodoItem (replicate 21 \<lparr>content = js ''Write tests'', status = js ''in_progress'',
    activeForm = js ''Writing tests''\<rparr>)) =
     (new_manager, Inl (Error too_many_msg))
   \<and> all_pass 0 (map of_TodoItem (replicate 21 \<lparr>content = js ''Write tests'', status = js ''in_progress'',
    activeForm = js ''Writing tests''\<rparr>))
   \<and> update new_manager (map of_TodoItem [\<lparr>content = js ''Write tests'', status = js ''in_progress'',
    activeForm = js ''Writing tests''\<rparr>, \<lparr>content = js ''Write tests'', status = js ''in_progress'',
    activeForm = js ''Writing tests''\<rparr>]) =
     (new_manager, Inl (Error multiple_in_progress_msg))
   \<and> all_pass 0 (map of_TodoItem [\<lparr>content = js ''Write tests'', status = js ''in_progress'',
    activeForm = js ''Writing tests''\<rparr>, \<lparr>content = js ''Write tests'', status = js ''in_progress'',
    activeForm = js ''Writing tests''\<rparr>])"
proof -
  let ?ip = "\<lparr>content = js ''Write tests'', status = js ''in_progress'',
    activeForm = js ''Writing tests''\<rparr>"
  let ?blank = "\<lparr>content = js ''   '', status = js ''in_progress'',
    activeForm = js ''Writing tests''\<rparr>"
  let ?its = "map of_TodoItem (replicate 20 ?ip) @ of_TodoItem ?blank # [of_TodoItem ?ip]"
  have pre: "all_pass 0 (map of_TodoItem (replicate 20 ?ip))"
    by (rule all_pass_valid) (simp add: list_all_iff valid_in_progress)
  have bad: "validate_item (length (map of_TodoItem (replicate 20 ?ip))) (of_TodoItem ?blank) =
      Inl (Error (need_content_msg 20))"
    by (simp add: validate_item_def extract_content_typed extract_status_typed string_eval)
  have at: "?its ! 20 = of_TodoItem ?blank"
    by (simp add: nth_append)
  have within: "20 < length ?its"
    by simp
  have fails: "isl (validate_item 20 (?its ! 20))"
    using bad by (simp only: at) simp
  have some: "\<exists>pre item post e. ?its = pre @ item # post \<and> all_pass 0 pre
      \<and> validate_item (length pre) item = Inl e \<and> update new_manager ?its = (new_manager, Inl e)
      \<and> e \<noteq> Error too_many_msg \<and> e \<noteq> Error multiple_in_progress_msg"
    using update_error_precedence [of 20 ?its new_manager] within fails
    by blast
  have first: "update new_manager ?its = (new_manager, Inl (Error (need_content_msg 20)))"
    using update_error_precedence [of _ _ new_manager "map of_TodoItem (replicate 20 ?ip)"
        "of_TodoItem ?blank" "Error (need_content_msg 20)" "[of_TodoItem ?ip]"] pre bad
    by blast
  have valid: "list_all valid_record (replicate 21 ?ip)"
    by (simp add: list_all_iff valid_in_progress)
  have long: "20 < length (replicate 21 ?ip)"
    by simp
  have many: "update new_manager (map of_TodoItem (replicate 21 ?ip)) =
      (new_manager, Inl (Error too_many_msg))"
    using update_error_precedence [of _ _ new_manager _ _ _ _ "replicate 21 ?ip"] valid long
    by blast
  have after: "all_pass 0 (map of_TodoItem (replicate 21 ?ip))"
    using update_error_precedence [of _ "map of_TodoItem (replicate 21 ?ip)" new_manager
        _ _ _ _ _ new_manager] many
    by blast
  have two: "update new_manager (map of_TodoItem [?ip, ?ip]) =
      (new_manager, Inl (Error multiple_in_progress_msg))"
    using update_typed [of "[?ip, ?ip]" new_manager]
    by (simp add: valid_in_progress in_progress_count_def count_in_progress)
  have after_two: "all_pass 0 (map of_TodoItem [?ip, ?ip])"
    using update_error_precedence [of _ "map of_TodoItem [?ip, ?ip]" new_manager
        _ _ _ _ _ new_manager] two
    by blast
  from some first many after two after_two show ?thesis
    by (intro conjI)
qed

section \<open>The per-record checks\<close>

lemma read_show_nat: "read_nat (show_nat n) = n"
proof (induction n rule: show_nat.induct)
  case (1 n)
  show ?case
  proof (cases "n < 10")
    case True
    then show ?thesis
      by (simp add: show_nat.simps [of n] read_nat_def)
  next
    case False
    with "1" have "read_nat (show_nat (n div 10)) = n div 10"
      by simp
    with False show ?thesis
      by (simp add: show_nat.simps [of n] read_nat_def)
  qed
qed

lemma show_nat_digits: "list_all is_digit (show_nat n)"
proof (induction n rule: show_nat.induct)
  case (1 n)
  show ?case
  proof (cases "n < 10")
    case True
    then show ?thesis
      by (simp add: show_nat.simps [of n] is_digit_def)
  next
    case False
    with "1" have "list_all is_digit (show_nat (n div 10))"
      by simp
    moreover have "n mod 10 \<le> 9"
      by arith
    then have "is_digit (48 + n mod 10)"
      by (simp add: is_digit_def)
    ultimately show ?thesis using False
      by (simp add: show_nat.simps [of n])
  qed
qed

lemma item_prefix_index:
  "read_nat (takeWhile is_digit (drop 2 (item_prefix i @ rest))) = i"
proof -
  have "drop 2 (item_prefix i @ rest) = show_nat i @ 32 # ([39033] @ js '': '' @ rest)"
    by (simp add: item_prefix_def)
  moreover have "takeWhile is_digit (show_nat i @ 32 # ([39033] @ js '': '' @ rest)) = show_nat i"
    using show_nat_digits [of i]
    by (simp add: takeWhile_append2 list_all_iff is_digit_def)
  ultimately show ?thesis
    by (simp add: read_show_nat)
qed

lemma item_prefix_inj:
  assumes "item_prefix i @ xs = item_prefix j @ ys"
  shows "i = j \<and> xs = ys"
proof -
  have "read_nat (takeWhile is_digit (drop 2 (item_prefix i @ xs))) =
      read_nat (takeWhile is_digit (drop 2 (item_prefix j @ ys)))"
    using assms by simp
  then have "i = j"
    by (simp only: item_prefix_index)
  with assms show ?thesis
    by simp
qed

lemma item_prefix_inj_whole: "item_prefix i = item_prefix j \<Longrightarrow> i = j"
  using item_prefix_inj [of i "[]" j "[]"] by simp

lemma messages_identify:
  "(need_content_msg i = need_content_msg j \<longrightarrow> i = j)
   \<and> (invalid_status_msg i s = invalid_status_msg j s' \<longrightarrow> i = j \<and> s = s')
   \<and> (need_activeForm_msg i = need_activeForm_msg j \<longrightarrow> i = j)
   \<and> need_content_msg i \<noteq> invalid_status_msg j s
   \<and> need_content_msg i \<noteq> need_activeForm_msg j
   \<and> invalid_status_msg i s \<noteq> need_activeForm_msg j"
  by (auto simp: need_content_msg_def invalid_status_msg_def need_activeForm_msg_def js_def
      dest!: item_prefix_inj item_prefix_inj_whole)

lemma update_first_violation:
  assumes "all_pass 0 pre" and "extract_status item = Inr s"
  shows "update m (pre @ item # post) =
     (m, Inl (Error
       (if extract_content item = [] then need_content_msg (length pre)
        else if s \<notin> set [pending, in_progress, completed]
          then invalid_status_msg (length pre) s
        else need_activeForm_msg (length pre))))
     \<or> (extract_content item \<noteq> [] \<and> s \<in> set [pending, in_progress, completed]
        \<and> extract_activeForm item \<noteq> [])"
proof (cases "validate_item (length pre) item")
  case (Inl e)
  from update_first_failure [OF assms(1) Inl] Inl assms(2) show ?thesis
    by (auto simp: validate_item_def Let_def split: if_splits)
next
  case (Inr t)
  with assms(2) show ?thesis
    by (auto simp: validate_item_def Let_def split: if_splits)
qed

text \<open>
  C6. The loop takes the records in the order of their 0-based index and checks each
  one's content, then its status, then its activeForm: for a record that stands after
  records that all pass (so at the index \<open>length pre\<close>) and whose status can be
  lower-cased (it is absent or a string), \<open>update\<close> throws the missing-content error
  when the content is empty after trimming, whatever the status and the activeForm;
  else the invalid-status error when the lower-cased status is not a legal value,
  whatever the activeForm; else the missing-activeForm error when the activeForm is empty
  after trimming. Each message names the index of its record, and the invalid-status
  message the illegal value: messages of different indices, of different values or of
  different checks are different strings. In particular a record with the content
  \<open>"   "\<close> at index 0 fails with the missing-content error of index 0, and a record
  with the status \<open>blocked\<close> with the invalid-status error of its index and the value
  \<open>blocked\<close>.
\<close>

theorem update_reports_first_violation:
  assumes "all_pass 0 pre" and "extract_status item = Inr s"
  shows "(extract_content item = [] \<longrightarrow>
           update m (pre @ item # post) = (m, Inl (Error (need_content_msg (length pre)))))
       \<and> (extract_content item \<noteq> [] \<and> s \<notin> set [pending, in_progress, completed] \<longrightarrow>
           update m (pre @ item # post) =
             (m, Inl (Error (invalid_status_msg (length pre) s))))
       \<and> (extract_content item \<noteq> [] \<and> s \<in> set [pending, in_progress, completed]
             \<and> extract_activeForm item = [] \<longrightarrow>
           update m (pre @ item # post) = (m, Inl (Error (need_activeForm_msg (length pre)))))
       \<and> (need_content_msg i = need_content_msg j \<longrightarrow> i = j)
       \<and> (invalid_status_msg i v = invalid_status_msg j v' \<longrightarrow> i = j \<and> v = v')
       \<and> (need_activeForm_msg i = need_activeForm_msg j \<longrightarrow> i = j)
       \<and> need_content_msg i \<noteq> invalid_status_msg j v
       \<and> need_content_msg i \<noteq> need_activeForm_msg j
       \<and> invalid_status_msg i v \<noteq> need_activeForm_msg j"
proof -
  from update_first_violation [OF assms, of m post]
  have order: "(extract_content item = [] \<longrightarrow>
           update m (pre @ item # post) = (m, Inl (Error (need_content_msg (length pre)))))
       \<and> (extract_content item \<noteq> [] \<and> s \<notin> set [pending, in_progress, completed] \<longrightarrow>
           update m (pre @ item # post) =
             (m, Inl (Error (invalid_status_msg (length pre) s))))
       \<and> (extract_content item \<noteq> [] \<and> s \<in> set [pending, in_progress, completed]
             \<and> extract_activeForm item = [] \<longrightarrow>
           update m (pre @ item # post) = (m, Inl (Error (need_activeForm_msg (length pre)))))"
    by auto
  from order messages_identify [of i j v v'] show ?thesis
    by blast
qed

theorem update_reports_first_violation_witness:
  "update new_manager
     [of_TodoItem \<lparr>content = js ''   '', status = js ''blocked'', activeForm = []\<rparr>,
      of_TodoItem \<lparr>content = [], status = js ''pending'', activeForm = js ''Shipping''\<rparr>] =
     (new_manager, Inl (Error ([31532, 32, 48, 32, 39033] @ js '': ''
        @ [38656, 35201, 20869, 23481] @ js '' (content)'')))
   \<and> update new_manager
     [of_TodoItem \<lparr>content = js ''Ship'', status = js ''pending'', activeForm = js ''Shipping''\<rparr>,
      of_TodoItem \<lparr>content = js ''Deploy'', status = js ''blocked'', activeForm = []\<rparr>] =
     (new_manager, Inl (Error ([31532, 32, 49, 32, 39033] @ js '': ''
        @ [26080, 25928, 29366, 24577, 32, 39] @ js ''blocked'' @ [39])))
   \<and> update new_manager
     [of_TodoItem \<lparr>content = js ''Deploy'', status = js ''completed'', activeForm = js '' ''\<rparr>] =
     (new_manager, Inl (Error ([31532, 32, 48, 32, 39033] @ js '': ''
        @ [38656, 35201] @ js '' activeForm'')))"
proof -
  let ?c = "of_TodoItem \<lparr>content = js ''   '', status = js ''blocked'', activeForm = []\<rparr>"
  let ?c' = "of_TodoItem \<lparr>content = [], status = js ''pending'',
    activeForm = js ''Shipping''\<rparr>"
  let ?ok = "of_TodoItem \<lparr>content = js ''Ship'', status = js ''pending'',
    activeForm = js ''Shipping''\<rparr>"
  let ?d = "of_TodoItem \<lparr>content = js ''Deploy'', status = js ''blocked'', activeForm = []\<rparr>"
  let ?a = "of_TodoItem \<lparr>content = js ''Deploy'', status = js ''completed'',
    activeForm = js '' ''\<rparr>"
  have none: "all_pass 0 []"
    by simp
  have one: "all_pass 0 [?ok]"
    using all_pass_valid [of "[\<lparr>content = js ''Ship'', status = js ''pending'',
      activeForm = js ''Shipping''\<rparr>]" 0] valid_pending
    by simp
  have status_c: "extract_status ?c = Inr (js ''blocked'')"
    by (simp add: extract_status_typed string_eval)
  have content_c: "extract_content ?c = []"
    by (simp add: extract_content_typed string_eval)
  have status_d: "extract_status ?d = Inr (js ''blocked'')"
    by (simp add: extract_status_typed string_eval)
  have content_d: "extract_content ?d \<noteq> []"
    by (simp add: extract_content_typed string_eval)
  have illegal: "js ''blocked'' \<notin> set [pending, in_progress, completed]"
    by (simp add: string_eval)
  have status_a: "extract_status ?a = Inr completed"
    by (simp add: extract_status_typed string_eval)
  have content_a: "extract_content ?a \<noteq> []"
    by (simp add: extract_content_typed string_eval)
  have active_a: "extract_activeForm ?a = []"
    by (simp add: extract_activeForm_typed string_eval)
  have c: "update new_manager ([] @ ?c # [?c']) = (new_manager, Inl (Error (need_content_msg 0)))"
    using update_reports_first_violation [OF none status_c, of new_manager "[?c']"] content_c
    by simp
  have d: "update new_manager ([?ok] @ ?d # []) =
      (new_manager, Inl (Error (invalid_status_msg 1 (js ''blocked''))))"
    using update_reports_first_violation [OF one status_d, of new_manager "[]"] content_d illegal
    by simp
  have a: "update new_manager ([] @ ?a # []) =
      (new_manager, Inl (Error (need_activeForm_msg 0)))"
    using update_reports_first_violation [OF none status_a, of new_manager "[]"] content_a active_a
    by simp
  from c d a show ?thesis
    by (simp add: need_content_msg_def invalid_status_msg_def need_activeForm_msg_def
        item_prefix_def show_nat.simps js_def)
qed

section \<open>The status is neither coerced nor trimmed\<close>

lemma update_same_validation:
  assumes "validate_item (length pre) x = validate_item (length pre) y"
  shows "update m (pre @ x # post) = update m (pre @ y # post)"
proof -
  have "validate_all (0 + length pre) (x # post) = validate_all (0 + length pre) (y # post)"
    using assms by simp
  then have "validate_all 0 (pre @ x # post) = validate_all 0 (pre @ y # post)"
    by (simp only: validate_all_append)
  then show ?thesis
    by (simp only: update_validate_all)
qed

lemma validate_item_status:
  assumes "content_in r' = content_in r" and "activeForm_in r' = activeForm_in r"
    and "extract_status (Some r') = extract_status (Some r)"
  shows "validate_item i (Some r') = validate_item i (Some r)"
proof -
  have c: "extract_content (Some r') = extract_content (Some r)"
    by (simp add: extract_content_def opt_chain_def assms(1))
  have a: "extract_activeForm (Some r') = extract_activeForm (Some r)"
    by (simp add: extract_activeForm_def opt_chain_def assms(2))
  show ?thesis
    unfolding validate_item_def c a assms(3) by (rule refl)
qed

lemma pending_not_Nil: "pending \<noteq> []"
  by (simp add: pending_units)

lemma extract_status_falsy: "\<not> truthy (status_in r) \<Longrightarrow> extract_status (Some r) = Inr pending"
  by (simp add: extract_status_def opt_chain_def or_else_def lower_pending)

lemma extract_status_string:
  "status_in r = JStr s \<Longrightarrow>
   extract_status (Some r) = Inr (toLocaleLowerCase (if s = [] then pending else s))"
  by (simp add: extract_status_def opt_chain_def or_else_def)

lemma update_falsy_status:
  assumes "\<not> truthy (status_in r)"
  shows "update m (pre @ Some r # post) = update m (pre @ Some (r\<lparr>status_in := JStr pending\<rparr>) # post)"
proof -
  have "extract_status (Some (r\<lparr>status_in := JStr pending\<rparr>)) = Inr pending"
    by (simp add: extract_status_string lower_pending pending_not_Nil)
  with extract_status_falsy [OF assms]
  have "validate_item (length pre) (Some r) =
      validate_item (length pre) (Some (r\<lparr>status_in := JStr pending\<rparr>))"
    by (intro validate_item_status) simp_all
  then show ?thesis
    by (rule update_same_validation)
qed

lemma update_illegal_string_status:
  assumes "all_pass 0 pre" and "status_in r = JStr s" and "s \<noteq> []" and "\<not> legal_status s"
    and "extract_content (Some r) \<noteq> []"
  shows "update m (pre @ Some r # post) =
    (m, Inl (Error (invalid_status_msg (length pre) (toLocaleLowerCase s))))"
proof -
  from extract_status_string [OF assms(2)] assms(3)
  have "extract_status (Some r) = Inr (toLocaleLowerCase s)"
    by simp
  with assms(4,5) have "validate_item (length pre) (Some r) =
      Inl (Error (invalid_status_msg (length pre) (toLocaleLowerCase s)))"
    by (simp add: validate_item_def legal_status_lower)
  with assms(1) show ?thesis
    by (rule update_first_failure)
qed

lemma dropWhile_hd: "ys \<noteq> [] \<Longrightarrow> \<not> P (hd ys) \<Longrightarrow> dropWhile P ys = ys"
  by (cases ys) simp_all

lemma trim_id:
  assumes "s \<noteq> []" and "\<not> is_space (hd s)" and "\<not> is_space (last s)"
  shows "trim s = s"
proof -
  from assms(1,2) have "dropWhile is_space s = s"
    by (rule dropWhile_hd)
  moreover from assms(1,3) have "dropWhile is_space (rev s) = rev s"
    by (intro dropWhile_hd) (simp_all add: hd_rev)
  ultimately show ?thesis
    by (simp add: trim_def)
qed

lemma padded_ends:
  assumes "trim s \<noteq> s"
  shows "s \<noteq> [] \<and> (is_space (hd s) \<or> is_space (last s))"
proof -
  from assms have "s \<noteq> []"
    by (auto simp: trim_def)
  with assms trim_id [of s] show ?thesis
    by blast
qed

lemma space_lower: "is_space c \<Longrightarrow> lower_unit c = c"
  by (auto simp: is_space_def lower_unit_def)

lemma legal_ends:
  "v \<in> set [pending, in_progress, completed] \<Longrightarrow> \<not> is_space (hd v) \<and> \<not> is_space (last v)"
  by (auto simp: pending_units in_progress_units completed_units is_space_def)

lemma padded_not_legal:
  assumes "trim s \<noteq> s"
  shows "toLocaleLowerCase s \<notin> set [pending, in_progress, completed]"
proof
  assume legal: "toLocaleLowerCase s \<in> set [pending, in_progress, completed]"
  from padded_ends [OF assms] have ne: "s \<noteq> []" and ends: "is_space (hd s) \<or> is_space (last s)"
    by simp_all
  from ne have "hd (toLocaleLowerCase s) = lower_unit (hd s)"
    and "last (toLocaleLowerCase s) = lower_unit (last s)"
    by (simp_all add: toLocaleLowerCase_def hd_map last_map)
  with ends have "is_space (hd (toLocaleLowerCase s)) \<or> is_space (last (toLocaleLowerCase s))"
    by (auto simp: space_lower)
  with legal_ends [OF legal] show False
    by blast
qed

lemma update_padded_status:
  assumes "all_pass 0 pre" and "trim (content t) \<noteq> []" and "trim (status t) \<noteq> status t"
  shows "update m (pre @ of_TodoItem t # post) =
    (m, Inl (Error (invalid_status_msg (length pre) (toLocaleLowerCase (status t)))))"
proof -
  from padded_ends [OF assms(3)] have "status t \<noteq> []"
    by simp
  with assms(2) padded_not_legal [OF assms(3)]
  have "validate_item (length pre) (of_TodoItem t) =
      Inl (Error (invalid_status_msg (length pre) (toLocaleLowerCase (status t))))"
    by (simp add: validate_item_def extract_content_typed extract_status_typed)
  with assms(1) show ?thesis
    by (rule update_first_failure)
qed

lemma padded_record_fails:
  assumes "trim (status t) \<noteq> status t"
  shows "isl (validate_item i (of_TodoItem t))"
proof -
  from padded_ends [OF assms] have "status t \<noteq> []"
    by simp
  with padded_not_legal [OF assms] show ?thesis
    by (simp add: validate_item_def extract_content_typed extract_status_typed Let_def)
qed

lemma update_padded_rejected:
  assumes "trim (status t) \<noteq> status t"
  shows "isl (snd (update m (xs @ of_TodoItem t # ys))) \<and> fst (update m (xs @ of_TodoItem t # ys)) = m"
proof -
  have "length xs < length (xs @ of_TodoItem t # ys)"
    by simp
  moreover have "isl (validate_item (length xs) ((xs @ of_TodoItem t # ys) ! length xs))"
    using padded_record_fails [OF assms] by simp
  ultimately obtain e where "update m (xs @ of_TodoItem t # ys) = (m, Inl e)"
    using update_some_violation [of "length xs" "xs @ of_TodoItem t # ys" m] by blast
  then show ?thesis
    by simp
qed

text \<open>
  C7. The specification wants the status coerced to text, so that a status of the wrong
  type ends in the invalid-status error of its record. The code coerces the content and
  the activeForm with \<^verbatim>\<open>String(...)\<close> (lines 40 and 42) and leaves the status as
  it is (line 41): a record whose content and activeForm are numbers is accepted with
  their decimal text, and a record whose status is the number 5 makes \<open>update\<close> throw
  a \<^verbatim>\<open>TypeError\<close>, which is not a validation error and names no index. The manager
  is as it was.
\<close>

theorem status_number_throws_TypeError:
  "update \<lparr>items = [\<lparr>content = js ''Ship'', status = js ''pending'',
       activeForm = js ''Shipping''\<rparr>]\<rparr>
     [Some \<lparr>content_in = JStr (js ''Write tests''), status_in = JNum 5,
        activeForm_in = JStr (js ''Writing tests'')\<rparr>] =
     (\<lparr>items = [\<lparr>content = js ''Ship'', status = js ''pending'',
        activeForm = js ''Shipping''\<rparr>]\<rparr>, Inl TypeError)
   \<and> update new_manager
     [Some \<lparr>content_in = JNum 5, status_in = JStr (js ''pending''),
        activeForm_in = JNum 7\<rparr>] =
     (\<lparr>items = [\<lparr>content = js ''5'', status = js ''pending'', activeForm = js ''7''\<rparr>]\<rparr>,
      Inr (js ''[ ] 5'' @ [10, 10] @ js ''(0/1 '' @ [24050, 23436, 25104] @ js '')''))"
  by (simp add: string_eval update_eval show_int_def)

text \<open>
  C8, as the specification states it, fails: a record whose status is the empty string
  is accepted and stored as pending.
\<close>

theorem empty_status_counterexample:
  "update new_manager
     [of_TodoItem \<lparr>content = js ''Write tests'', status = [],
        activeForm = js ''Writing tests''\<rparr>] =
     (\<lparr>items = [\<lparr>content = js ''Write tests'', status = js ''pending'',
        activeForm = js ''Writing tests''\<rparr>]\<rparr>,
      Inr (js ''[ ] Write tests'' @ [10, 10] @ js ''(0/1 '' @ [24050, 23436, 25104] @ js '')''))"
  by (simp add: string_eval spec_eval update_eval)

text \<open>
  C8, amended. A status that is present but empty is defaulted as an absent one is:
  \<open>update\<close> gives what it gives for the same list with \<open>pending\<close>, or with no status,
  in that place. A status that is a non-empty string must be pending, in_progress or
  completed up to letter case: any other one, in a record with a content and after
  records that all pass, is rejected with the invalid-status error of that index.
\<close>

theorem empty_status_defaults:
  "update m (pre @ Some (r\<lparr>status_in := JStr []\<rparr>) # post) =
     update m (pre @ Some (r\<lparr>status_in := JStr pending\<rparr>) # post)
   \<and> update m (pre @ Some (r\<lparr>status_in := JStr []\<rparr>) # post) =
     update m (pre @ Some (r\<lparr>status_in := JUndefined\<rparr>) # post)
   \<and> (all_pass 0 pre \<and> extract_content (Some r) \<noteq> [] \<and> status_in r = JStr s \<and> s \<noteq> []
        \<and> \<not> legal_status s \<longrightarrow>
      update m (pre @ Some r # post) =
        (m, Inl (Error (invalid_status_msg (length pre) (toLocaleLowerCase s)))))"
  using update_falsy_status [of "r\<lparr>status_in := JStr []\<rparr>" m pre post]
    update_falsy_status [of "r\<lparr>status_in := JUndefined\<rparr>" m pre post]
    update_illegal_string_status [of pre r s m post]
  by simp

theorem empty_status_defaults_witness:
  "update new_manager
     [Some \<lparr>content_in = JStr (js ''Write tests''), status_in = JStr [],
        activeForm_in = JStr (js ''Writing tests'')\<rparr>] =
     update new_manager
     [Some \<lparr>content_in = JStr (js ''Write tests''), status_in = JStr pending,
        activeForm_in = JStr (js ''Writing tests'')\<rparr>]
   \<and> update new_manager
     [Some \<lparr>content_in = JStr (js ''Write tests''), status_in = JStr (js ''done''),
        activeForm_in = JStr (js ''Writing tests'')\<rparr>] =
     (new_manager, Inl (Error (invalid_status_msg 0 (js ''done''))))"
proof -
  let ?r = "\<lparr>content_in = JStr (js ''Write tests''), status_in = JStr (js ''done''),
    activeForm_in = JStr (js ''Writing tests'')\<rparr>"
  have none: "all_pass 0 []"
    by simp
  have content: "extract_content (Some ?r) \<noteq> []"
    by (simp add: extract_content_def opt_chain_def or_else_def string_eval)
  have is_done: "status_in ?r = JStr (js ''done'')"
    by simp
  have not_empty: "js ''done'' \<noteq> []"
    by (simp add: js_def)
  have illegal: "\<not> legal_status (js ''done'')"
    by (simp add: string_eval spec_eval)
  have lower: "toLocaleLowerCase (js ''done'') = js ''done''"
    by (simp add: string_eval)
  have "update new_manager ([] @ Some ?r # []) =
      (new_manager,
       Inl (Error (invalid_status_msg (length ([] :: candidate option list))
         (toLocaleLowerCase (js ''done'')))))"
    using empty_status_defaults [of new_manager "[]" ?r "[]" "js ''done''"]
      none content is_done not_empty illegal
    by blast
  with lower have rejected: "update new_manager [Some ?r] =
      (new_manager, Inl (Error (invalid_status_msg 0 (js ''done''))))"
    by simp
  have "update new_manager ([] @ Some (?r\<lparr>status_in := JStr []\<rparr>) # []) =
      update new_manager ([] @ Some (?r\<lparr>status_in := JStr pending\<rparr>) # [])"
    using empty_status_defaults [of new_manager "[]" ?r "[]" "js ''done''"]
    by blast
  with rejected show ?thesis
    by simp
qed

text \<open>
  C10. The status is not trimmed. For every record of the declared type whose status is
  an otherwise-legal value with white space before or after it and whose content is not
  empty after trimming, standing after valid records (more generally, after records that
  all pass), \<open>update\<close> rejects the list with the invalid-status error of that record's
  index, which quotes the lower-cased status with its white space. Wherever such a
  record stands, the list is rejected and the manager is as it was. The content and the
  activeForm are trimmed when they are extracted; the status is only lower-cased.
\<close>

theorem padded_status_rejected:
  assumes "trim (status t) \<noteq> status t" and "legal_status (trim (status t))"
  shows "(list_all valid_record pre \<and> trim (content t) \<noteq> [] \<longrightarrow>
           update m (map of_TodoItem pre @ of_TodoItem t # ys) =
             (m, Inl (Error (invalid_status_msg (length pre) (toLocaleLowerCase (status t))))))
       \<and> (all_pass 0 xs \<and> trim (content t) \<noteq> [] \<longrightarrow>
           update m (xs @ of_TodoItem t # ys) =
             (m, Inl (Error (invalid_status_msg (length xs) (toLocaleLowerCase (status t))))))
       \<and> isl (snd (update m (xs @ of_TodoItem t # ys)))
       \<and> fst (update m (xs @ of_TodoItem t # ys)) = m
       \<and> extract_content (of_TodoItem t) = trim (content t)
       \<and> extract_activeForm (of_TodoItem t) = trim (activeForm t)
       \<and> extract_status (of_TodoItem t) = Inr (toLocaleLowerCase (status t))"
proof -
  from padded_ends [OF assms(1)] have "status t \<noteq> []"
    by simp
  then have status: "extract_status (of_TodoItem t) = Inr (toLocaleLowerCase (status t))"
    by (simp add: extract_status_typed)
  have general: "all_pass 0 xs \<and> trim (content t) \<noteq> [] \<longrightarrow>
      update m (xs @ of_TodoItem t # ys) =
        (m, Inl (Error (invalid_status_msg (length xs) (toLocaleLowerCase (status t)))))"
    using update_padded_status [of xs t m ys] assms(1) by blast
  have typed: "list_all valid_record pre \<and> trim (content t) \<noteq> [] \<longrightarrow>
      update m (map of_TodoItem pre @ of_TodoItem t # ys) =
        (m, Inl (Error (invalid_status_msg (length pre) (toLocaleLowerCase (status t)))))"
    using update_padded_status [of "map of_TodoItem pre" t m ys] assms(1)
      all_pass_valid [of pre 0]
    by simp
  from typed general status update_padded_rejected [OF assms(1), of m xs ys] show ?thesis
    by (simp add: extract_content_typed extract_activeForm_typed)
qed

theorem padded_status_rejected_witness:
  "update new_manager
     (map of_TodoItem
        [\<lparr>content = js ''Ship'', status = js ''pending'', activeForm = js ''Shipping''\<rparr>]
      @ of_TodoItem \<lparr>content = js '' Write tests '', status = js '' Pending'',
          activeForm = js ''Writing tests''\<rparr> # []) =
     (new_manager, Inl (Error (invalid_status_msg 1 (js '' pending''))))
   \<and> update new_manager
     [of_TodoItem \<lparr>content = js ''Write tests'', status = js ''in_progress '',
        activeForm = js ''Writing tests''\<rparr>] =
     (new_manager, Inl (Error (invalid_status_msg 0 (js ''in_progress ''))))
   \<and> isl (snd (update new_manager
     [of_TodoItem \<lparr>content = js ''   '', status = js ''in_progress '',
        activeForm = js ''Writing tests''\<rparr>,
      of_TodoItem \<lparr>content = js ''Write tests'', status = js ''in_progress '',
        activeForm = js ''Writing tests''\<rparr>]))"
proof -
  let ?ok = "\<lparr>content = js ''Ship'', status = js ''pending'', activeForm = js ''Shipping''\<rparr>"
  let ?a = "\<lparr>content = js '' Write tests '', status = js '' Pending'',
    activeForm = js ''Writing tests''\<rparr>"
  let ?b = "\<lparr>content = js ''Write tests'', status = js ''in_progress '',
    activeForm = js ''Writing tests''\<rparr>"
  let ?c = "of_TodoItem \<lparr>content = js ''   '', status = js ''in_progress '',
    activeForm = js ''Writing tests''\<rparr>"
  have none: "all_pass 0 []"
    by simp
  have one: "list_all valid_record [?ok]"
    using valid_pending by simp
  have a1: "trim (content ?a) \<noteq> []"
    by (simp add: string_eval)
  have a2: "trim (status ?a) \<noteq> status ?a"
    by (simp add: string_eval)
  have a3: "legal_status (trim (status ?a))"
    by (simp add: string_eval spec_eval)
  have b1: "trim (content ?b) \<noteq> []"
    by (simp add: string_eval)
  have b2: "trim (status ?b) \<noteq> status ?b"
    by (simp add: string_eval)
  have b3: "legal_status (trim (status ?b))"
    by (simp add: string_eval spec_eval)
  have "update new_manager (map of_TodoItem [?ok] @ of_TodoItem ?a # []) =
      (new_manager,
       Inl (Error (invalid_status_msg (length [?ok]) (toLocaleLowerCase (status ?a)))))"
    using padded_status_rejected [OF a2 a3, of "[?ok]" new_manager "[]"] one a1
    by blast
  then have a: "update new_manager (map of_TodoItem [?ok] @ of_TodoItem ?a # []) =
      (new_manager, Inl (Error (invalid_status_msg 1 (js '' pending''))))"
    by (simp add: string_eval)
  have "update new_manager ([] @ of_TodoItem ?b # []) =
      (new_manager,
       Inl (Error (invalid_status_msg (length ([] :: candidate option list))
         (toLocaleLowerCase (status ?b)))))"
    using padded_status_rejected [OF b2 b3, of _ new_manager "[]" "[]"] none b1
    by blast
  then have b: "update new_manager ([] @ of_TodoItem ?b # []) =
      (new_manager, Inl (Error (invalid_status_msg 0 (js ''in_progress ''))))"
    by (simp add: string_eval)
  have c: "isl (snd (update new_manager ([?c] @ of_TodoItem ?b # [])))"
    using padded_status_rejected [OF b2 b3, of _ new_manager "[]" "[?c]"]
    by blast
  from a b c show ?thesis
    by simp
qed

end
